theory Spec2Isabelle
  imports Complex_Main
begin

section \<open>Sales dashboard: the data-loading pipeline of app.py\<close>

text \<open>
  The program is a script over a dataframe library. The embedding keeps the part of a
  dataframe that the script observes: the ordered column names, the row labels (the index)
  and the cells. The library's own parsers (text to number, text to timestamp, the CSV
  reader, the calendar accessors) are not code of the script: they are taken as parameters,
  gathered in one record, so that every theorem holds for whatever they recognise.
\<close>

subsection \<open>Cells, frames and errors\<close>

text \<open>
  A cell is a missing marker (NaN, NaT and NA are one marker here), an integer, a float
  (held as a real: rounding and the infinities are left out), a text, or a timestamp counted
  in nanoseconds since the epoch, which is the resolution of the library's datetime columns.
  The library stores a column under one type, so it holds an integer that shares a column
  with a float or a missing value as the float of the same value; here each cell keeps its
  own kind, which changes no value.
\<close>

datatype cell = NA | IntC int | FloatC real | StrC string | TsC int

text \<open>
  A frame: the column names in order, and the rows in order, each row being its label paired
  with its cells, aligned with the column names.
\<close>

record frame =
  columns :: "string list"
  rows :: "(int \<times> cell list) list"

text \<open>
  Every way the script stops: the three \<open>st.stop()\<close> exits of \<open>read_csv_from_zip\<close>
  (lines 18-20, 26-28, 33-35), a failure inside the CSV reader, and the exceptions the
  dataframe calls raise (a missing column, a cast that cannot be done).
\<close>

datatype error =
    MissingFileError
  | NoTabularEntryError
  | EmptyPayloadError
  | ParserError
  | KeyError string
  | TypeError
  | ValueError

definition ebind :: "error + 'a \<Rightarrow> ('a \<Rightarrow> error + 'b) \<Rightarrow> error + 'b" where
  "ebind m f = (case m of Inl e \<Rightarrow> Inl e | Inr x \<Rightarrow> f x)"

subsection \<open>The library, as parameters\<close>

datatype numeral_value = IntN int | FloatN real

record 'b pandas =
  read_csv :: "'b \<Rightarrow> frame option"
  str_to_num :: "string \<Rightarrow> numeral_value option"
  to_datetime :: "cell list \<Rightarrow> nat \<Rightarrow> int option"
  dt_year :: "int \<Rightarrow> int"
  dt_month :: "int \<Rightarrow> int"
  dt_isoweek :: "int \<Rightarrow> int"

subsection \<open>read_csv_from_zip (lines 17-39)\<close>

record 'b zipinfo =
  filename :: string
  file_size :: nat
  payload :: 'b

type_synonym 'b filesystem = "string \<rightharpoonup> 'b zipinfo list"

definition lower_char :: "char \<Rightarrow> char" where
  "lower_char c = (let n = (of_char c :: nat)
                   in if 65 \<le> n \<and> n \<le> 90 then char_of (n + 32) else c)"

definition lower :: "string \<Rightarrow> string" where
  "lower s = map lower_char s"

definition endswith :: "string \<Rightarrow> string \<Rightarrow> bool" where
  "endswith s suf = (length suf \<le> length s \<and> drop (length s - length suf) s = suf)"

text \<open>\<open>max(infos, key=...)\<close>: the first element whose key is the largest.\<close>

fun max_key :: "('a \<Rightarrow> nat) \<Rightarrow> 'a \<Rightarrow> 'a list \<Rightarrow> 'a" where
  "max_key f b [] = b"
| "max_key f b (x # xs) = max_key f (if f b < f x then x else b) xs"

definition csv_infos :: "'b zipinfo list \<Rightarrow> 'b zipinfo list" where
  "csv_infos z = filter (\<lambda>i. endswith (lower (filename i)) ''.csv'') z"

definition read_csv_from_zip ::
  "'b pandas \<Rightarrow> 'b filesystem \<Rightarrow> string \<Rightarrow> error + frame" where
  "read_csv_from_zip lib fs zip_path =
     (case fs zip_path of
        None \<Rightarrow> Inl MissingFileError
      | Some z \<Rightarrow>
          (case csv_infos z of
             [] \<Rightarrow> Inl NoTabularEntryError
           | i # infos \<Rightarrow>
               (let best = max_key file_size i infos
                in if file_size best = 0 then Inl EmptyPayloadError
                   else (case read_csv lib (payload best) of
                           None \<Rightarrow> Inl ParserError
                         | Some t \<Rightarrow> Inr t))))"

subsection \<open>Frame operations used by the script\<close>

text \<open>The cell of a row under a column name; a name the row does not carry reads as missing.\<close>

definition cell_of :: "string list \<Rightarrow> cell list \<Rightarrow> string \<Rightarrow> cell" where
  "cell_of cols r c = (case map_of (zip cols r) c of None \<Rightarrow> NA | Some v \<Rightarrow> v)"

definition column :: "frame \<Rightarrow> string \<Rightarrow> cell list" where
  "column df c = map (\<lambda>(l, r). cell_of (columns df) r c) (rows df)"

text \<open>\<open>df[c]\<close>: a missing column raises KeyError.\<close>

definition getitem :: "frame \<Rightarrow> string \<Rightarrow> error + cell list" where
  "getitem df c = (if c \<in> set (columns df) then Inr (column df c) else Inl (KeyError c))"

definition put_cell :: "string list \<Rightarrow> cell list \<Rightarrow> string \<Rightarrow> cell \<Rightarrow> cell list" where
  "put_cell cols r c v =
     (if c \<in> set cols then map (\<lambda>k. if k = c then v else cell_of cols r k) cols
      else map (cell_of cols r) cols @ [v])"

text \<open>\<open>df[c] = vs\<close>: replaces the column, or appends it as the last one.\<close>

definition setitem :: "frame \<Rightarrow> string \<Rightarrow> cell list \<Rightarrow> frame" where
  "setitem df c vs =
     \<lparr>columns = (if c \<in> set (columns df) then columns df else columns df @ [c]),
      rows = map (\<lambda>((l, r), v). (l, put_cell (columns df) r c v)) (zip (rows df) vs)\<rparr>"

text \<open>\<open>df[cs]\<close> with a list of names: a new frame with these columns, same rows and labels.\<close>

definition select_columns :: "frame \<Rightarrow> string list \<Rightarrow> frame" where
  "select_columns df cs =
     \<lparr>columns = cs, rows = map (\<lambda>(l, r). (l, map (cell_of (columns df) r) cs)) (rows df)\<rparr>"

definition drop_column :: "frame \<Rightarrow> string \<Rightarrow> frame" where
  "drop_column df c = select_columns df (filter (\<lambda>k. k \<noteq> c) (columns df))"

text \<open>
  \<open>pd.concat([a, b], ignore_index=True)\<close>: the columns of \<open>a\<close>, then those of \<open>b\<close> that
  \<open>a\<close> lacks; the rows of \<open>a\<close>, then those of \<open>b\<close>, a column a row never had reading as
  missing; the labels replaced by 0, 1, 2, ...
\<close>

definition concat_ignore_index :: "frame \<Rightarrow> frame \<Rightarrow> frame" where
  "concat_ignore_index a b =
     (let cs = columns a @ filter (\<lambda>c. c \<notin> set (columns a)) (columns b);
          rs = map (\<lambda>(l, r). map (cell_of (columns a) r) cs) (rows a)
             @ map (\<lambda>(l, r). map (cell_of (columns b) r) cs) (rows b)
      in \<lparr>columns = cs, rows = zip (map int [0..<length rs]) rs\<rparr>)"

text \<open>\<open>drop_duplicates(subset=...)\<close> keeps, for each key, the first row that carries it.\<close>

fun keep_first :: "('a \<Rightarrow> 'k) \<Rightarrow> 'k list \<Rightarrow> 'a list \<Rightarrow> 'a list" where
  "keep_first key seen [] = []"
| "keep_first key seen (x # xs) =
     (if key x \<in> set seen then keep_first key seen xs
      else x # keep_first key (key x # seen) xs)"

definition row_key :: "string list \<Rightarrow> string list \<Rightarrow> int \<times> cell list \<Rightarrow> cell list" where
  "row_key cols ks lr = map (cell_of cols (snd lr)) ks"

definition drop_duplicates :: "frame \<Rightarrow> string list \<Rightarrow> error + frame" where
  "drop_duplicates df ks =
     (case filter (\<lambda>c. c \<notin> set (columns df)) ks of
        c # _ \<Rightarrow> Inl (KeyError c)
      | [] \<Rightarrow> Inr \<lparr>columns = columns df,
                    rows = keep_first (row_key (columns df) ks) [] (rows df)\<rparr>)"

subsection \<open>Series conversions\<close>

text \<open>\<open>pd.to_numeric(..., errors="coerce")\<close>, one cell: what is not a number becomes missing.\<close>

fun to_numeric :: "(string \<Rightarrow> numeral_value option) \<Rightarrow> cell \<Rightarrow> cell" where
  "to_numeric p NA = NA"
| "to_numeric p (IntC n) = IntC n"
| "to_numeric p (FloatC x) = FloatC x"
| "to_numeric p (StrC s) =
     (case p s of None \<Rightarrow> NA | Some (IntN n) \<Rightarrow> IntC n | Some (FloatN x) \<Rightarrow> FloatC x)"
| "to_numeric p (TsC t) = IntC t"

fun fillna :: "cell \<Rightarrow> cell \<Rightarrow> cell" where
  "fillna v NA = v"
| "fillna v c = c"

text \<open>\<open>.astype(int)\<close>: a float is cut towards zero; a missing value cannot be cast.\<close>

definition trunc :: "real \<Rightarrow> int" where
  "trunc x = (if 0 \<le> x then \<lfloor>x\<rfloor> else \<lceil>x\<rceil>)"

fun astype_int :: "cell \<Rightarrow> error + cell" where
  "astype_int NA = Inl ValueError"
| "astype_int (IntC n) = Inr (IntC n)"
| "astype_int (FloatC x) = Inr (IntC (trunc x))"
| "astype_int (StrC s) = Inl ValueError"
| "astype_int (TsC t) = Inr (IntC t)"

text \<open>\<open>.astype("Int64")\<close>: missing stays missing; a float with a fraction cannot be cast.\<close>

fun astype_Int64 :: "cell \<Rightarrow> error + cell" where
  "astype_Int64 NA = Inr NA"
| "astype_Int64 (IntC n) = Inr (IntC n)"
| "astype_Int64 (FloatC x) = (if of_int \<lfloor>x\<rfloor> = x then Inr (IntC \<lfloor>x\<rfloor>) else Inl TypeError)"
| "astype_Int64 (StrC s) = Inl TypeError"
| "astype_Int64 (TsC t) = Inl TypeError"

fun collect :: "(error + 'a) list \<Rightarrow> error + 'a list" where
  "collect [] = Inr []"
| "collect (x # xs) =
     (case x of Inl e \<Rightarrow> Inl e
      | Inr v \<Rightarrow> (case collect xs of Inl e \<Rightarrow> Inl e | Inr vs \<Rightarrow> Inr (v # vs)))"

text \<open>\<open>pd.to_datetime(col, errors="coerce")\<close>: a timestamp or the missing marker per entry.\<close>

definition pd_to_datetime :: "'b pandas \<Rightarrow> cell list \<Rightarrow> cell list" where
  "pd_to_datetime lib col =
     map (\<lambda>i. case to_datetime lib col i of None \<Rightarrow> NA | Some t \<Rightarrow> TsC t) [0..<length col]"

text \<open>\<open>.dt.year\<close>, \<open>.dt.month\<close>, \<open>.dt.isocalendar().week\<close> on a datetime column.\<close>

fun dt_field :: "(int \<Rightarrow> int) \<Rightarrow> cell \<Rightarrow> cell" where
  "dt_field f (TsC t) = IntC (f t)"
| "dt_field f c = NA"

subsection \<open>load_data (lines 47-77)\<close>

text \<open>Lines 69-74: the calendar columns are derived from the dates when they are absent.\<close>

definition derive_calendar :: "'b pandas \<Rightarrow> frame \<Rightarrow> error + frame" where
  "derive_calendar lib df0 =
     (let df = (if ''year'' \<notin> set (columns df0)
                then setitem df0 ''year'' (map (dt_field (dt_year lib)) (column df0 ''date''))
                else df0);
          df = (if ''month'' \<notin> set (columns df)
                then setitem df ''month'' (map (dt_field (dt_month lib)) (column df ''date''))
                else df)
      in if ''week'' \<notin> set (columns df)
         then ebind (collect (map (\<lambda>c. astype_int (dt_field (dt_isoweek lib) c))
                                  (column df ''date'')))
                (\<lambda>week. Inr (setitem df ''week'' week))
         else Inr df)"

text \<open>Lines 51-77, on the two tables already read.\<close>

definition load_data_frame :: "'b pandas \<Rightarrow> frame \<Rightarrow> frame \<Rightarrow> error + frame" where
  "load_data_frame lib df1 df2 =
     (let df = concat_ignore_index df1 df2;
          df = (if ''Unnamed: 0'' \<in> set (columns df) then drop_column df ''Unnamed: 0'' else df)
      in ebind (getitem df ''date'') (\<lambda>date.
         let df = setitem df ''date'' (pd_to_datetime lib date)
         in ebind (getitem df ''store_nbr'') (\<lambda>store.
            ebind (collect (map (\<lambda>c. astype_Int64 (to_numeric (str_to_num lib) c)) store))
              (\<lambda>store.
            let df = setitem df ''store_nbr'' store
            in ebind (getitem df ''sales'') (\<lambda>sales.
               let df = setitem df ''sales''
                          (map (\<lambda>c. fillna (FloatC 0) (to_numeric (str_to_num lib) c)) sales)
               in ebind (getitem df ''onpromotion'') (\<lambda>promo.
                  ebind (collect (map (\<lambda>c. astype_int (fillna (IntC 0)
                                               (to_numeric (str_to_num lib) c))) promo))
                    (\<lambda>promo.
                  derive_calendar lib (setitem df ''onpromotion'' promo))))))))"

definition load_data :: "'b pandas \<Rightarrow> 'b filesystem \<Rightarrow> error + frame" where
  "load_data lib fs =
     ebind (read_csv_from_zip lib fs ''parte_1.zip'') (\<lambda>df1.
     ebind (read_csv_from_zip lib fs ''parte_2.zip'') (\<lambda>df2.
     load_data_frame lib df1 df2))"

subsection \<open>build_transactions_table (lines 91-97)\<close>

definition tx_columns :: "frame \<Rightarrow> string list" where
  "tx_columns df = filter (\<lambda>c. c \<in> set (columns df))
     [''date'', ''store_nbr'', ''state'', ''city'', ''transactions'', ''year'']"

definition coerce_transactions :: "'b pandas \<Rightarrow> cell \<Rightarrow> cell" where
  "coerce_transactions lib c = fillna (FloatC 0) (to_numeric (str_to_num lib) c)"

definition build_transactions_table :: "'b pandas \<Rightarrow> frame \<Rightarrow> error + frame" where
  "build_transactions_table lib df =
     ebind (drop_duplicates (select_columns df (tx_columns df)) [''date'', ''store_nbr''])
       (\<lambda>base.
     ebind (getitem base ''transactions'') (\<lambda>tx.
     Inr (setitem base ''transactions'' (map (coerce_transactions lib) tx))))"

subsection \<open>The date filter (lines 123-127)\<close>

text \<open>
  A chosen day is its number of days since the epoch; \<open>pd.to_datetime\<close> of a day is its
  midnight, in nanoseconds.
\<close>

definition ns_per_second :: int where
  "ns_per_second = 1000000000"

definition ns_per_day :: int where
  "ns_per_day = 86400 * ns_per_second"

definition start_date :: "int \<Rightarrow> int" where
  "start_date d0 = d0 * ns_per_day"

definition end_date :: "int \<Rightarrow> int" where
  "end_date d1 = d1 * ns_per_day + ns_per_day - ns_per_second"

text \<open>Comparing a datetime column with a timestamp: the missing marker compares false.\<close>

fun ts_ge :: "cell \<Rightarrow> int \<Rightarrow> bool" where
  "ts_ge (TsC t) b = (b \<le> t)"
| "ts_ge c b = False"

fun ts_le :: "cell \<Rightarrow> int \<Rightarrow> bool" where
  "ts_le (TsC t) b = (t \<le> b)"
| "ts_le c b = False"

definition in_date_range :: "int \<Rightarrow> int \<Rightarrow> cell \<Rightarrow> bool" where
  "in_date_range d0 d1 c = (ts_ge c (start_date d0) \<and> ts_le c (end_date d1))"

text \<open>\<open>df[mask]\<close>: the rows whose mask entry is true, labels kept.\<close>

definition boolean_index :: "frame \<Rightarrow> bool list \<Rightarrow> frame" where
  "boolean_index df keep =
     \<lparr>columns = columns df, rows = map fst (filter snd (zip (rows df) keep))\<rparr>"

definition date_filter :: "frame \<Rightarrow> int \<Rightarrow> int \<Rightarrow> error + frame" where
  "date_filter df d0 d1 =
     ebind (getitem df ''date'') (\<lambda>date.
     Inr (boolean_index df (map (in_date_range d0 d1) date)))"

subsection \<open>The same operations on a store of frame objects\<close>

text \<open>
  Frames are objects: a variable holds a reference, \<open>df[c] = ...\<close> writes into the object
  referred to, and selection, de-duplication, masking and \<open>.copy()\<close> each make a new object.
  The store is the list of the objects made so far; a reference is a position in it.
\<close>

type_synonym store = "frame list"

definition alloc :: "store \<Rightarrow> frame \<Rightarrow> nat \<times> store" where
  "alloc h f = (length h, h @ [f])"

definition build_transactions_table_st ::
  "'b pandas \<Rightarrow> store \<Rightarrow> nat \<Rightarrow> (error + nat) \<times> store" where
  "build_transactions_table_st lib h df =
     (let (sel, h1) = alloc h (select_columns (h ! df) (tx_columns (h ! df)))
      in case drop_duplicates (h1 ! sel) [''date'', ''store_nbr''] of
           Inl e \<Rightarrow> (Inl e, h1)
         | Inr d \<Rightarrow>
             (let (base, h2) = alloc h1 d
              in case getitem (h2 ! base) ''transactions'' of
                   Inl e \<Rightarrow> (Inl e, h2)
                 | Inr tx \<Rightarrow>
                     (Inr base,
                      h2[base := setitem (h2 ! base) ''transactions''
                                   (map (coerce_transactions lib) tx)])))"

definition date_filter_st :: "store \<Rightarrow> nat \<Rightarrow> int \<Rightarrow> int \<Rightarrow> (error + nat) \<times> store" where
  "date_filter_st h df d0 d1 =
     (case date_filter (h ! df) d0 d1 of
        Inl e \<Rightarrow> (Inl e, h)
      | Inr v \<Rightarrow>
          (let (view, h1) = alloc h v;
               (copy, h2) = alloc h1 (h1 ! view)
           in (Inr copy, h2)))"

datatype table_op = Dedup nat | DateFilter nat int int

fun run_op :: "'b pandas \<Rightarrow> store \<Rightarrow> table_op \<Rightarrow> store" where
  "run_op lib h (Dedup df) = snd (build_transactions_table_st lib h df)"
| "run_op lib h (DateFilter df d0 d1) = snd (date_filter_st h df d0 d1)"

definition run_ops :: "'b pandas \<Rightarrow> store \<Rightarrow> table_op list \<Rightarrow> store" where
  "run_ops lib h ops = foldl (run_op lib) h ops"

subsection \<open>Sums of the transactions column\<close>

fun num_val :: "cell \<Rightarrow> real" where
  "num_val (IntC n) = of_int n"
| "num_val (FloatC x) = x"
| "num_val c = 0"




section \<open>Notions used in the statements\<close>

text \<open>The number of rows, the row labels in order, and the cell at a row position.\<close>

definition height :: "frame \<Rightarrow> nat" where
  "height df = length (rows df)"

definition labels :: "frame \<Rightarrow> int list" where
  "labels df = map fst (rows df)"

definition cell_at :: "frame \<Rightarrow> nat \<Rightarrow> string \<Rightarrow> cell" where
  "cell_at df i c = cell_of (columns df) (snd (rows df ! i)) c"

text \<open>The entry \<open>read_csv_from_zip\<close> selects in an archive, and what reading it gives.\<close>

definition selected :: "'b zipinfo list \<Rightarrow> 'b zipinfo option" where
  "selected z =
     (case csv_infos z of [] \<Rightarrow> None | i # infos \<Rightarrow> Some (max_key file_size i infos))"

definition parsed :: "'b pandas \<Rightarrow> 'b zipinfo \<Rightarrow> error + frame" where
  "parsed lib i = (case read_csv lib (payload i) of None \<Rightarrow> Inl ParserError | Some t \<Rightarrow> Inr t)"

text \<open>
  The cell that row \<open>i\<close> of the two tables, the first stacked on the second, carries under
  a column name, before the loader rewrites anything.
\<close>

definition stacked_cell :: "frame \<Rightarrow> frame \<Rightarrow> nat \<Rightarrow> string \<Rightarrow> cell" where
  "stacked_cell df1 df2 i k =
     (if i < height df1 then cell_at df1 i k else cell_at df2 (i - height df1) k)"

definition stacked_column :: "frame \<Rightarrow> frame \<Rightarrow> string \<Rightarrow> cell list" where
  "stacked_column df1 df2 k =
     map (\<lambda>i. stacked_cell df1 df2 i k) [0..<height df1 + height df2]"

text \<open>The columns the loader rewrites (lines 62-67) and those it may derive (lines 69-74).\<close>

definition rewritten :: "string set" where
  "rewritten = {''date'', ''store_nbr'', ''sales'', ''onpromotion''}"

definition calendar :: "string set" where
  "calendar = {''year'', ''month'', ''week''}"

definition normalise_date :: "'b pandas \<Rightarrow> cell list \<Rightarrow> nat \<Rightarrow> cell" where
  "normalise_date lib col i = (case to_datetime lib col i of None \<Rightarrow> NA | Some t \<Rightarrow> TsC t)"

text \<open>The de-duplication key, and the row of the transactions table made from a row.\<close>

definition key_cols :: "string list" where
  "key_cols = [''date'', ''store_nbr'']"

definition tx_row :: "'b pandas \<Rightarrow> frame \<Rightarrow> int \<times> cell list \<Rightarrow> int \<times> cell list" where
  "tx_row lib df lr =
     (fst lr, map (\<lambda>c. if c = ''transactions''
                         then coerce_transactions lib (cell_of (columns df) (snd lr) c)
                         else cell_of (columns df) (snd lr) c) (tx_columns df))"

text \<open>A cell that holds a number; a source cell that the numeric coercion turns to missing.\<close>

fun is_number :: "cell \<Rightarrow> bool" where
  "is_number (IntC n) = True"
| "is_number (FloatC x) = True"
| "is_number c = False"






section \<open>Concrete inputs\<close>

text \<open>
  A library instance for running the model: the CSV reader hands back the table an archive
  entry holds, and the parsers know the few literals the examples use, on which they agree
  with the real ones. Every timestamp this instance can produce lies in January 2023.
\<close>

definition example_lib :: "frame pandas" where
  "example_lib =
     \<lparr>read_csv = Some,
      str_to_num = map_of [(''10'', IntN 10)],
      to_datetime = (\<lambda>col i. case col ! i of
                       StrC s \<Rightarrow> map_of [(''2023-01-01'', 1672531200000000000),
                                          (''2023-01-02'', 1672617600000000000)] s
                     | _ \<Rightarrow> None),
      dt_year = (\<lambda>t. 2023),
      dt_month = (\<lambda>t. 1),
      dt_isoweek = (\<lambda>t. if t < 1672617600000000000 then 52 else 1)\<rparr>"

text \<open>Two source tables: store 1 on one day under two families, store 2 on the next day.\<close>

definition part_1 :: frame where
  "part_1 =
     \<lparr>columns = [''date'', ''store_nbr'', ''family'', ''sales'', ''onpromotion'', ''transactions''],
      rows = [(0, [StrC ''2023-01-01'', IntC 1, StrC ''DAIRY'', StrC ''10'', FloatC 0, IntC 50]),
              (1, [StrC ''2023-01-01'', IntC 1, StrC ''BREAD'', StrC ''abc'', NA, IntC 50])]\<rparr>"

definition part_2 :: frame where
  "part_2 =
     \<lparr>columns = [''date'', ''store_nbr'', ''family'', ''sales'', ''onpromotion'', ''transactions''],
      rows = [(0, [StrC ''2023-01-02'', IntC 2, StrC ''DAIRY'', FloatC (3 / 2), IntC 2, NA])]\<rparr>"

definition unified :: frame where
  "unified =
     \<lparr>columns = [''date'', ''store_nbr'', ''family'', ''sales'', ''onpromotion'', ''transactions'',
                 ''year'', ''month'', ''week''],
      rows = [(0, [TsC 1672531200000000000, IntC 1, StrC ''DAIRY'', IntC 10, IntC 0, IntC 50,
                   IntC 2023, IntC 1, IntC 52]),
              (1, [TsC 1672531200000000000, IntC 1, StrC ''BREAD'', FloatC 0, IntC 0, IntC 50,
                   IntC 2023, IntC 1, IntC 52]),
              (2, [TsC 1672617600000000000, IntC 2, StrC ''DAIRY'', FloatC (3 / 2), IntC 2, NA,
                   IntC 2023, IntC 1, IntC 1])]\<rparr>"

definition unified_tx :: frame where
  "unified_tx =
     \<lparr>columns = [''date'', ''store_nbr'', ''transactions'', ''year''],
      rows = [(0, [TsC 1672531200000000000, IntC 1, IntC 50, IntC 2023]),
              (2, [TsC 1672617600000000000, IntC 2, FloatC 0, IntC 2023])]\<rparr>"

text \<open>An archive with a text file, a small CSV and a larger CSV with an upper-case name.\<close>

definition archive_1 :: "frame zipinfo list" where
  "archive_1 =
     [\<lparr>filename = ''readme.txt'', file_size = 900, payload = part_2\<rparr>,
      \<lparr>filename = ''sample.csv'', file_size = 3, payload = part_2\<rparr>,
      \<lparr>filename = ''DATA.CSV'', file_size = 300, payload = part_1\<rparr>]"

definition example_fs :: "frame filesystem" where
  "example_fs =
     [''parte_1.zip'' \<mapsto> archive_1,
      ''parte_2.zip'' \<mapsto> [\<lparr>filename = ''b.csv'', file_size = 10, payload = part_2\<rparr>]]"

text \<open>A unified table with a negative transactions count.\<close>

definition refund_day :: frame where
  "refund_day =
     \<lparr>columns = [''date'', ''store_nbr'', ''transactions''],
      rows = [(0, [TsC 1672531200000000000, IntC 1, IntC (- 5)])]\<rparr>"

text \<open>A source table whose only row has a date that is not a date, and no week column.\<close>

definition part_unparsed :: frame where
  "part_unparsed =
     \<lparr>columns = [''date'', ''store_nbr'', ''family'', ''sales'', ''onpromotion'', ''transactions''],
      rows = [(0, [StrC ''unknown'', IntC 2, StrC ''DAIRY'', FloatC 3, IntC 0, IntC 7])]\<rparr>"




text \<open>A unified table with one row at midnight and one at 23:59:59.5 of 2023-01-01.\<close>

definition late_sale :: frame where
  "late_sale =
     \<lparr>columns = [''date'', ''store_nbr'', ''sales''],
      rows = [(0, [TsC 1672531200000000000, IntC 1, FloatC 10]),
              (1, [TsC 1672617599500000000, IntC 1, FloatC 4])]\<rparr>"



section \<open>Properties\<close>

subsection \<open>Auxiliary facts\<close>

lemma cell_of_map: "cell_of cs (map f cs) c = (if c \<in> set cs then f c else NA)"
  by (simp add: cell_of_def map_of_zip_map)

lemma keep_first_map:
  "keep_first K seen (map p xs) = map p (keep_first (\<lambda>x. K (p x)) seen xs)"
  by (induction xs arbitrary: seen) auto

lemma keep_first_filter_key:
  "filter (\<lambda>x. K x = k) (keep_first K seen xs) =
     (if k \<in> set seen then []
      else case find (\<lambda>x. K x = k) xs of None \<Rightarrow> [] | Some x \<Rightarrow> [x])"
  by (induction xs arbitrary: seen) auto

lemma map_zip_same: "map h (zip xs (map g xs)) = map (\<lambda>x. h (x, g x)) xs"
  by (induction xs) auto

lemma setitem_map_column:
  "c \<in> set (columns df) \<Longrightarrow>
   setitem df c (map g (column df c)) =
     \<lparr>columns = columns df,
      rows = map (\<lambda>lr. (fst lr, map (\<lambda>k. if k = c then g (cell_of (columns df) (snd lr) c)
                                              else cell_of (columns df) (snd lr) k) (columns df)))
                 (rows df)\<rparr>"
  by (simp add: setitem_def column_def map_zip_same put_cell_def case_prod_beta)

lemma tx_columns_set:
  "set (tx_columns df) =
     {''date'', ''store_nbr'', ''state'', ''city'', ''transactions'', ''year''} \<inter> set (columns df)"
  by (auto simp: tx_columns_def)

lemma drop_duplicates_key_cols:
  "drop_duplicates df key_cols =
     (if ''date'' \<notin> set (columns df) then Inl (KeyError ''date'')
      else if ''store_nbr'' \<notin> set (columns df) then Inl (KeyError ''store_nbr'')
      else Inr \<lparr>columns = columns df,
                rows = keep_first (row_key (columns df) key_cols) [] (rows df)\<rparr>)"
  by (simp add: drop_duplicates_def key_cols_def)

lemma row_key_select:
  assumes "''date'' \<in> set cs" "''store_nbr'' \<in> set cs"
  shows "row_key cs key_cols (l, map (cell_of cols r) cs) = row_key cols key_cols (l, r)"
  using assms by (simp add: row_key_def key_cols_def cell_of_map)

lemma build_transactions_table_Inr:
  "build_transactions_table lib df = Inr tx \<longleftrightarrow>
     (''date'' \<in> set (columns df) \<and> ''store_nbr'' \<in> set (columns df) \<and>
      ''transactions'' \<in> set (columns df) \<and>
      tx = \<lparr>columns = tx_columns df,
            rows = map (tx_row lib df) (keep_first (row_key (columns df) key_cols) [] (rows df))\<rparr>)"
proof (cases "''date'' \<in> set (columns df) \<and> ''store_nbr'' \<in> set (columns df) \<and>
      ''transactions'' \<in> set (columns df)")
  case False
  then show ?thesis
    by (auto simp: build_transactions_table_def key_cols_def[symmetric] drop_duplicates_key_cols
        select_columns_def tx_columns_set ebind_def getitem_def)
next
  case True
  let ?cs = "tx_columns df"
  let ?p = "\<lambda>lr. (fst lr, map (cell_of (columns df) (snd lr)) ?cs)"
  let ?kept = "keep_first (row_key (columns df) key_cols) [] (rows df)"
  have in_cs: "''date'' \<in> set ?cs" "''store_nbr'' \<in> set ?cs" "''transactions'' \<in> set ?cs"
    using True by (simp_all add: tx_columns_set)
  have sel: "select_columns df ?cs = \<lparr>columns = ?cs, rows = map ?p (rows df)\<rparr>"
    by (simp add: select_columns_def case_prod_beta)
  have key: "(\<lambda>x. row_key ?cs key_cols (?p x)) = row_key (columns df) key_cols"
    using row_key_select[OF in_cs(1,2)] by (auto simp: fun_eq_iff)
  have dd: "drop_duplicates (select_columns df ?cs) key_cols =
              Inr \<lparr>columns = ?cs, rows = map ?p ?kept\<rparr>"
    using in_cs by (simp add: sel drop_duplicates_key_cols keep_first_map key)
  let ?base = "\<lparr>columns = ?cs, rows = map ?p ?kept\<rparr>"
  have gi: "getitem ?base ''transactions'' = Inr (column ?base ''transactions'')"
    using in_cs by (simp add: getitem_def)
  have si: "setitem ?base ''transactions''
              (map (coerce_transactions lib) (column ?base ''transactions'')) =
            \<lparr>columns = ?cs, rows = map (tx_row lib df) ?kept\<rparr>"
    using in_cs(3)
    by (simp add: setitem_map_column tx_row_def cell_of_map cong: map_cong)
  have "build_transactions_table lib df = Inr \<lparr>columns = ?cs, rows = map (tx_row lib df) ?kept\<rparr>"
    unfolding build_transactions_table_def key_cols_def[symmetric]
    by (simp add: dd gi ebind_def si)
  with True show ?thesis by auto
qed

lemma max_key_mem: "max_key f b xs \<in> set (b # xs)"
  by (induction xs arbitrary: b) auto

lemma max_key_ge_start: "f b \<le> f (max_key f b xs)"
proof (induction xs arbitrary: b)
  case Nil
  show ?case by simp
next
  case (Cons x xs)
  show ?case
  proof (cases "f b < f x")
    case True
    with Cons[of x] show ?thesis by simp
  next
    case False
    with Cons[of b] show ?thesis by simp
  qed
qed

lemma max_key_ge: "x \<in> set (b # xs) \<Longrightarrow> f x \<le> f (max_key f b xs)"
proof (induction xs arbitrary: b)
  case Nil
  then show ?case by simp
next
  case (Cons y ys)
  let ?b = "if f b < f y then y else b"
  have start: "f ?b \<le> f (max_key f ?b ys)" by (rule max_key_ge_start)
  from Cons.prems consider "x = b" | "x = y" | "x \<in> set ys" by auto
  then show ?case
  proof cases
    case 1
    with start show ?thesis by (simp split: if_splits)
  next
    case 2
    with start show ?thesis by (simp split: if_splits)
  next
    case 3
    then have "x \<in> set (?b # ys)" by simp
    from Cons.IH[OF this] show ?thesis by simp
  qed
qed

lemma selected_largest:
  assumes "selected z = Some best"
  shows "best \<in> set (csv_infos z) \<and> (\<forall>i \<in> set (csv_infos z). file_size i \<le> file_size best)"
proof (cases "csv_infos z")
  case Nil
  with assms show ?thesis by (simp add: selected_def)
next
  case (Cons i infos)
  with assms have b: "best = max_key file_size i infos" by (simp add: selected_def)
  show ?thesis unfolding Cons b using max_key_mem[of file_size i infos] max_key_ge[of _ i infos file_size]
    by blast
qed

lemma selected_None: "selected z = None \<longleftrightarrow> (\<forall>i \<in> set z. \<not> endswith (lower (filename i)) ''.csv'')"
proof -
  have "selected z = None \<longleftrightarrow> csv_infos z = []"
    by (simp add: selected_def split: list.splits)
  then show ?thesis by (simp add: csv_infos_def filter_empty_conv)
qed

lemma read_csv_from_zip_selected:
  "read_csv_from_zip lib fs p =
     (case fs p of None \<Rightarrow> Inl MissingFileError
      | Some z \<Rightarrow> (case selected z of None \<Rightarrow> Inl NoTabularEntryError
                    | Some best \<Rightarrow> if file_size best = 0 then Inl EmptyPayloadError else parsed lib best))"
  by (simp add: read_csv_from_zip_def selected_def parsed_def Let_def split: option.splits list.splits)

lemma parsed_not_stop: "parsed lib i \<noteq> Inl MissingFileError" "parsed lib i \<noteq> Inl NoTabularEntryError"
  "parsed lib i \<noteq> Inl EmptyPayloadError"
  by (simp_all add: parsed_def split: option.splits)

lemma ebind_Inr: "ebind m f = Inr y \<longleftrightarrow> (\<exists>x. m = Inr x \<and> f x = Inr y)"
  by (cases m) (simp_all add: ebind_def)

lemma collect_Inr:
  "collect xs = Inr ys \<Longrightarrow> length ys = length xs \<and> (\<forall>i < length xs. xs ! i = Inr (ys ! i))"
proof (induction xs arbitrary: ys)
  case Nil
  then show ?case by simp
next
  case (Cons x xs)
  from Cons.prems obtain v vs where x: "x = Inr v" and c: "collect xs = Inr vs" and ys: "ys = v # vs"
    by (auto split: sum.splits)
  from Cons.IH[OF c] show ?case
    by (auto simp: x ys nth_Cons split: nat.splits)
qed

lemma cell_of_absent: "c \<notin> set cols \<Longrightarrow> cell_of cols r c = NA"
proof -
  assume "c \<notin> set cols"
  then have "c \<notin> fst ` set (zip cols r)" by (auto dest: set_zip_leftD)
  then have "map_of (zip cols r) c = None" by (simp add: map_of_eq_None_iff)
  then show ?thesis by (simp add: cell_of_def)
qed

lemma cell_of_put_cell:
  "cell_of (if c \<in> set cols then cols else cols @ [c]) (put_cell cols r c v) k =
     (if k = c then v else cell_of cols r k)"
proof (cases "c \<in> set cols")
  case True
  then show ?thesis
    by (simp add: put_cell_def cell_of_map cell_of_absent)
next
  case False
  have "put_cell cols r c v = map (\<lambda>k. if k = c then v else cell_of cols r k) (cols @ [c])"
    using False by (auto simp: put_cell_def)
  then show ?thesis using False
    by (simp only: cell_of_map if_False) (auto simp: cell_of_absent)
qed

lemma height_setitem: "length vs = height df \<Longrightarrow> height (setitem df c vs) = height df"
  by (simp add: setitem_def height_def)

lemma labels_setitem: "length vs = height df \<Longrightarrow> labels (setitem df c vs) = labels df"
proof -
  assume "length vs = height df"
  then have "map fst (zip (rows df) vs) = rows df" by (simp add: height_def)
  then have "map (\<lambda>x. fst (fst x)) (zip (rows df) vs) = map fst (rows df)"
    by (metis (no_types, lifting) map_map comp_def map_eq_conv)
  then show ?thesis by (simp add: setitem_def labels_def case_prod_beta comp_def)
qed

lemma cell_at_setitem:
  assumes "length vs = height df" "i < height df"
  shows "cell_at (setitem df c vs) i k = (if k = c then vs ! i else cell_at df i k)"
  using assms cell_of_put_cell[of c "columns df" "snd (rows df ! i)" "vs ! i" k]
  by (simp add: cell_at_def setitem_def height_def case_prod_beta)

lemma columns_setitem: "set (columns (setitem df c vs)) = insert c (set (columns df))"
  by (auto simp: setitem_def)

lemma getitem_Inr:
  "getitem df c = Inr col \<Longrightarrow> c \<in> set (columns df) \<and> col = column df c"
  by (auto simp: getitem_def split: if_splits)

lemma length_column: "length (column df c) = height df"
  by (simp add: column_def height_def)

lemma nth_column: "i < height df \<Longrightarrow> column df c ! i = cell_at df i c"
  by (simp add: column_def height_def cell_at_def case_prod_beta)

lemma height_select: "height (select_columns df cs) = height df"
  by (simp add: select_columns_def height_def)

lemma labels_select: "labels (select_columns df cs) = labels df"
  by (simp add: select_columns_def labels_def case_prod_beta comp_def)

lemma cell_at_select:
  "i < height df \<Longrightarrow> cell_at (select_columns df cs) i k = (if k \<in> set cs then cell_at df i k else NA)"
  by (simp add: cell_at_def select_columns_def height_def case_prod_beta cell_of_map)

lemma height_concat: "height (concat_ignore_index a b) = height a + height b"
  by (simp add: concat_ignore_index_def height_def Let_def)

lemma labels_concat: "labels (concat_ignore_index a b) = map int [0..<height a + height b]"
  by (simp add: concat_ignore_index_def labels_def height_def Let_def)

lemma cell_at_absent: "k \<notin> set (columns df) \<Longrightarrow> cell_at df i k = NA"
  by (simp add: cell_at_def cell_of_absent)

lemma columns_concat: "set (columns (concat_ignore_index a b)) = set (columns a) \<union> set (columns b)"
  by (auto simp: concat_ignore_index_def Let_def)

lemma cell_at_concat:
  assumes "i < height a + height b"
  shows "cell_at (concat_ignore_index a b) i k =
           (if i < height a then cell_at a i k else cell_at b (i - height a) k)"
proof -
  let ?cs = "columns a @ filter (\<lambda>c. c \<notin> set (columns a)) (columns b)"
  let ?rs = "map (\<lambda>(l, r). map (cell_of (columns a) r) ?cs) (rows a)
             @ map (\<lambda>(l, r). map (cell_of (columns b) r) ?cs) (rows b)"
  have len: "length ?rs = height a + height b" by (simp add: height_def)
  have "cell_at (concat_ignore_index a b) i k = cell_of ?cs (?rs ! i) k"
    using assms len by (simp add: cell_at_def concat_ignore_index_def Let_def)
  also have "\<dots> = (if i < height a then cell_of ?cs (map (cell_of (columns a) (snd (rows a ! i))) ?cs) k
                    else cell_of ?cs (map (cell_of (columns b) (snd (rows b ! (i - height a)))) ?cs) k)"
    using assms by (simp add: nth_append height_def case_prod_beta)
  also have "\<dots> = (if i < height a then cell_at a i k else cell_at b (i - height a) k)"
    unfolding cell_of_map cell_at_def
    by (auto simp: cell_of_absent)
  finally show ?thesis .
qed

lemma add_if_absent:
  assumes "X' = (if c \<notin> set (columns X) then setitem X c vs else X)" "length vs = height X"
  shows "height X' = height X" "labels X' = labels X" "set (columns X) \<subseteq> set (columns X')"
    "set (columns X') \<subseteq> insert c (set (columns X))"
    "\<And>i k. i < height X \<Longrightarrow> k \<noteq> c \<or> k \<in> set (columns X) \<Longrightarrow> cell_at X' i k = cell_at X i k"
  using assms
  by (auto simp: height_setitem labels_setitem columns_setitem cell_at_setitem)

lemma derive_calendar_Inr:
  assumes "derive_calendar lib T = Inr df"
  shows "height df = height T" "labels df = labels T"
    "\<And>i k. i < height T \<Longrightarrow> k \<notin> calendar \<or> k \<in> set (columns T) \<Longrightarrow> cell_at df i k = cell_at T i k"
    "''week'' \<notin> set (columns T) \<Longrightarrow> i < height T \<Longrightarrow> \<exists>t. cell_at T i ''date'' = TsC t"
proof -
  define Y where "Y = (if ''year'' \<notin> set (columns T)
       then setitem T ''year'' (map (dt_field (dt_year lib)) (column T ''date'')) else T)"
  define M where "M = (if ''month'' \<notin> set (columns Y)
       then setitem Y ''month'' (map (dt_field (dt_month lib)) (column Y ''date'')) else Y)"
  note y = add_if_absent[OF Y_def, simplified length_map length_column, OF refl]
  note m = add_if_absent[OF M_def, simplified length_map length_column, OF refl]
  have fin: "(if ''week'' \<notin> set (columns M)
         then ebind (collect (map (\<lambda>c. astype_int (dt_field (dt_isoweek lib) c)) (column M ''date'')))
                (\<lambda>week. Inr (setitem M ''week'' week))
         else Inr M) = Inr df"
    using assms[unfolded derive_calendar_def Let_def, folded Y_def, folded M_def] .
  have hM: "height M = height T" using y(1) m(1) by simp
  have lM: "labels M = labels T" using y(2) m(2) by simp
  have cM: "cell_at M i k = cell_at T i k" if "i < height T" "k \<notin> calendar \<or> k \<in> set (columns T)" for i k
  proof -
    have "cell_at Y i k = cell_at T i k" using y(5)[of i k] that by (auto simp: calendar_def)
    moreover have "cell_at M i k = cell_at Y i k" using m(5)[of i k] that y(1) y(3)
      by (auto simp: calendar_def)
    ultimately show ?thesis by simp
  qed
  have wk: "''week'' \<in> set (columns M) \<longleftrightarrow> ''week'' \<in> set (columns T)"
    using y(3,4) m(3,4) by auto
  show "height df = height T" "labels df = labels T"
    "\<And>i k. i < height T \<Longrightarrow> k \<notin> calendar \<or> k \<in> set (columns T) \<Longrightarrow> cell_at df i k = cell_at T i k"
    "''week'' \<notin> set (columns T) \<Longrightarrow> i < height T \<Longrightarrow> \<exists>t. cell_at T i ''date'' = TsC t"
  proof -
    show g1: "height df = height T"
    proof (cases "''week'' \<in> set (columns M)")
      case True with fin hM show ?thesis by simp
    next
      case False
      with fin obtain w where w: "collect (map (\<lambda>c. astype_int (dt_field (dt_isoweek lib) c)) (column M ''date'')) = Inr w"
        and df: "df = setitem M ''week'' w" by (auto simp: ebind_Inr)
      from collect_Inr[OF w] have "length w = height M" by (simp add: length_column)
      then show ?thesis using hM by (simp add: df height_setitem)
    qed
    show "labels df = labels T"
    proof (cases "''week'' \<in> set (columns M)")
      case True with fin lM show ?thesis by simp
    next
      case False
      with fin obtain w where w: "collect (map (\<lambda>c. astype_int (dt_field (dt_isoweek lib) c)) (column M ''date'')) = Inr w"
        and df: "df = setitem M ''week'' w" by (auto simp: ebind_Inr)
      from collect_Inr[OF w] have "length w = height M" by (simp add: length_column)
      then show ?thesis using lM by (simp add: df labels_setitem)
    qed
    show "cell_at df i k = cell_at T i k" if "i < height T" "k \<notin> calendar \<or> k \<in> set (columns T)" for i k
    proof (cases "''week'' \<in> set (columns M)")
      case True with fin cM[OF that] show ?thesis by simp
    next
      case False
      with fin obtain w where w: "collect (map (\<lambda>c. astype_int (dt_field (dt_isoweek lib) c)) (column M ''date'')) = Inr w"
        and df: "df = setitem M ''week'' w" by (auto simp: ebind_Inr)
      from collect_Inr[OF w] have len: "length w = height M" by (simp add: length_column)
      have "k \<noteq> ''week''" using that(2) False wk by (auto simp: calendar_def)
      then show ?thesis using cM[OF that] that(1) hM len by (simp add: df cell_at_setitem)
    qed
    show "\<exists>t. cell_at T i ''date'' = TsC t" if nw: "''week'' \<notin> set (columns T)" and i: "i < height T"
    proof -
      from nw wk have "''week'' \<notin> set (columns M)" by simp
      with fin obtain w where w: "collect (map (\<lambda>c. astype_int (dt_field (dt_isoweek lib) c)) (column M ''date'')) = Inr w"
        by (auto simp: ebind_Inr)
      from collect_Inr[OF w] i hM
      have "astype_int (dt_field (dt_isoweek lib) (column M ''date'' ! i)) = Inr (w ! i)"
        by (simp add: length_column)
      then have "\<exists>t. column M ''date'' ! i = TsC t"
        by (cases "column M ''date'' ! i") simp_all
      moreover have "column M ''date'' ! i = cell_at T i ''date''"
        using i hM cM[of i "''date''"] by (simp add: nth_column calendar_def)
      ultimately show ?thesis by simp
    qed
  qed
qed

lemma nth_pd_to_datetime:
  "i < length col \<Longrightarrow> pd_to_datetime lib col ! i = normalise_date lib col i"
  by (simp add: pd_to_datetime_def normalise_date_def)

lemma length_pd_to_datetime: "length (pd_to_datetime lib col) = length col"
  by (simp add: pd_to_datetime_def)

lemma cell_at_drop_unnamed:
  assumes "C0 = (if ''Unnamed: 0'' \<in> set (columns C) then drop_column C ''Unnamed: 0'' else C)"
    and "i < height C"
  shows "cell_at C0 i k = (if k = ''Unnamed: 0'' then NA else cell_at C i k)"
proof (cases "''Unnamed: 0'' \<in> set (columns C)")
  case True
  then show ?thesis using assms
    by (auto simp: drop_column_def cell_at_select cell_at_absent)
next
  case False
  then show ?thesis using assms by (auto simp: cell_at_absent)
qed

lemma drop_unnamed_shape:
  assumes "C0 = (if ''Unnamed: 0'' \<in> set (columns C) then drop_column C ''Unnamed: 0'' else C)"
  shows "height C0 = height C" "labels C0 = labels C"
    "set (columns C0) = set (columns C) - {''Unnamed: 0''}"
proof -
  show "height C0 = height C" "labels C0 = labels C"
    using assms by (simp_all add: drop_column_def height_select labels_select)
  have "columns (select_columns C cs) = cs" for cs by (simp add: select_columns_def)
  then show "set (columns C0) = set (columns C) - {''Unnamed: 0''}"
    using assms by (auto simp: drop_column_def)
qed

lemma stacked_column_concat:
  "column (concat_ignore_index df1 df2) k = stacked_column df1 df2 k"
  by (rule nth_equalityI)
     (simp_all add: length_column height_concat stacked_column_def nth_column cell_at_concat
        stacked_cell_def)

lemma load_data_frame_Inr:
  assumes ok: "load_data_frame lib df1 df2 = Inr df"
  defines "n \<equiv> height df1 + height df2"
  shows "height df = n"
    and "labels df = map int [0..<n]"
    and "\<And>i. i < n \<Longrightarrow>
           cell_at df i ''date'' = normalise_date lib (stacked_column df1 df2 ''date'') i"
    and "\<And>i. i < n \<Longrightarrow>
           astype_Int64 (to_numeric (str_to_num lib) (stacked_cell df1 df2 i ''store_nbr''))
             = Inr (cell_at df i ''store_nbr'')"
    and "\<And>i. i < n \<Longrightarrow>
           cell_at df i ''sales''
             = fillna (FloatC 0) (to_numeric (str_to_num lib) (stacked_cell df1 df2 i ''sales''))"
    and "\<And>i. i < n \<Longrightarrow>
           astype_int (fillna (IntC 0)
               (to_numeric (str_to_num lib) (stacked_cell df1 df2 i ''onpromotion'')))
             = Inr (cell_at df i ''onpromotion'')"
    and "\<And>i k. i < n \<Longrightarrow> k \<notin> rewritten \<Longrightarrow> k \<noteq> ''Unnamed: 0'' \<Longrightarrow>
           k \<notin> calendar \<or> k \<in> set (columns df1) \<union> set (columns df2) \<Longrightarrow>
           cell_at df i k = stacked_cell df1 df2 i k"
    and "\<And>i. ''week'' \<notin> set (columns df1) \<union> set (columns df2) \<Longrightarrow> i < n \<Longrightarrow>
           \<exists>t. cell_at df i ''date'' = TsC t"
proof -
  define C where "C = concat_ignore_index df1 df2"
  define C0 where "C0 = (if ''Unnamed: 0'' \<in> set (columns C) then drop_column C ''Unnamed: 0'' else C)"
  define p where "p = str_to_num lib"
  from ok[unfolded load_data_frame_def Let_def, folded C_def, folded C0_def, folded p_def]
  obtain date store0 store sales promo0 promo where
    date: "getitem C0 ''date'' = Inr date" and
    store0: "getitem (setitem C0 ''date'' (pd_to_datetime lib date)) ''store_nbr'' = Inr store0" and
    store: "collect (map (\<lambda>c. astype_Int64 (to_numeric p c)) store0) = Inr store" and
    sales: "getitem (setitem (setitem C0 ''date'' (pd_to_datetime lib date)) ''store_nbr'' store)
              ''sales'' = Inr sales" and
    promo0: "getitem (setitem (setitem (setitem C0 ''date'' (pd_to_datetime lib date))
                ''store_nbr'' store) ''sales''
                (map (\<lambda>c. fillna (FloatC 0) (to_numeric p c)) sales)) ''onpromotion'' = Inr promo0" and
    promo: "collect (map (\<lambda>c. astype_int (fillna (IntC 0) (to_numeric p c))) promo0) = Inr promo" and
    fin: "derive_calendar lib (setitem (setitem (setitem (setitem C0 ''date''
             (pd_to_datetime lib date)) ''store_nbr'' store) ''sales''
             (map (\<lambda>c. fillna (FloatC 0) (to_numeric p c)) sales)) ''onpromotion'' promo) = Inr df"
    unfolding ebind_Inr by blast
  define D1 where "D1 = setitem C0 ''date'' (pd_to_datetime lib date)"
  define D2 where "D2 = setitem D1 ''store_nbr'' store"
  define D3 where "D3 = setitem D2 ''sales'' (map (\<lambda>c. fillna (FloatC 0) (to_numeric p c)) sales)"
  define D4 where "D4 = setitem D3 ''onpromotion'' promo"
  note store0 = store0[folded D1_def]
  note sales = sales[folded D1_def, folded D2_def]
  note promo0 = promo0[folded D1_def, folded D2_def, folded D3_def]
  note fin = fin[folded D1_def, folded D2_def, folded D3_def, folded D4_def]
  have hC: "height C = n" by (simp add: C_def n_def height_concat)
  have hC0: "height C0 = n" using drop_unnamed_shape(1)[OF C0_def] hC by simp
  have cC0: "cell_at C0 i k = (if k = ''Unnamed: 0'' then NA else stacked_cell df1 df2 i k)"
    if "i < n" for i k
    using cell_at_drop_unnamed[OF C0_def, of i k] that hC
    by (simp add: C_def cell_at_concat n_def stacked_cell_def)
  have date_col: "date = stacked_column df1 df2 ''date''"
  proof (rule nth_equalityI)
    from getitem_Inr[OF date] have d: "date = column C0 ''date''" by simp
    show "length date = length (stacked_column df1 df2 ''date'')"
      by (simp add: d length_column hC0 stacked_column_def n_def)
    show "date ! i = stacked_column df1 df2 ''date'' ! i" if "i < length date" for i
    proof -
      from that have i: "i < n" by (simp add: d length_column hC0)
      then show ?thesis using cC0[OF i, of "''date''"]
        by (simp add: d nth_column hC0 stacked_column_def n_def)
    qed
  qed
  have ldate: "length (pd_to_datetime lib date) = height C0"
    using getitem_Inr[OF date] by (simp add: length_pd_to_datetime length_column)
  have hD1: "height D1 = n" using ldate hC0 by (simp add: D1_def height_setitem)
  have s0: "store0 = column D1 ''store_nbr''" using getitem_Inr[OF store0] by simp
  have lstore: "length store = height D1"
    using collect_Inr[OF store] by (simp add: s0 length_column)
  have hD2: "height D2 = n" using lstore hD1 by (simp add: D2_def height_setitem)
  have sl: "sales = column D2 ''sales''" using getitem_Inr[OF sales] by simp
  have lsales: "length (map (\<lambda>c. fillna (FloatC 0) (to_numeric p c)) sales) = height D2"
    by (simp add: sl length_column)
  have hD3: "height D3 = n" using lsales hD2 by (simp add: D3_def height_setitem)
  have p0: "promo0 = column D3 ''onpromotion''" using getitem_Inr[OF promo0] by simp
  have lpromo: "length promo = height D3"
    using collect_Inr[OF promo] by (simp add: p0 length_column)
  have hD4: "height D4 = n" using lpromo hD3 by (simp add: D4_def height_setitem)
  have lab: "labels D4 = map int [0..<n]"
    using ldate lstore lsales lpromo drop_unnamed_shape(2)[OF C0_def]
    by (simp add: D4_def D3_def D2_def D1_def labels_setitem C_def labels_concat n_def)
  have cD1: "cell_at D1 i k = (if k = ''date'' then pd_to_datetime lib date ! i else cell_at C0 i k)"
    if "i < n" for i k
    using that ldate hC0 by (simp add: D1_def cell_at_setitem)
  have cD2: "cell_at D2 i k = (if k = ''store_nbr'' then store ! i else cell_at D1 i k)"
    if "i < n" for i k
    using that lstore hD1 by (simp add: D2_def cell_at_setitem)
  have cD3: "cell_at D3 i k = (if k = ''sales'' then fillna (FloatC 0) (to_numeric p (sales ! i))
                               else cell_at D2 i k)"
    if "i < n" for i k
    using that lsales hD2 by (simp add: D3_def cell_at_setitem sl length_column)
  have cD4: "cell_at D4 i k = (if k = ''onpromotion'' then promo ! i else cell_at D3 i k)"
    if "i < n" for i k
    using that lpromo hD3 by (simp add: D4_def cell_at_setitem)
  have colsD4: "set (columns D4) = rewritten \<union> (set (columns df1) \<union> set (columns df2) - {''Unnamed: 0''})"
    using drop_unnamed_shape(3)[OF C0_def]
    by (auto simp: D4_def D3_def D2_def D1_def columns_setitem C_def columns_concat rewritten_def)
  note dc = derive_calendar_Inr[OF fin]
  show "height df = n" using dc(1) hD4 by simp
  show "labels df = map int [0..<n]" using dc(2) lab by simp
  have keep: "cell_at df i k = cell_at D4 i k"
    if "i < n" "k \<notin> calendar \<or> k \<in> rewritten \<or> k \<in> set (columns df1) \<union> set (columns df2) \<and> k \<noteq> ''Unnamed: 0''"
    for i k
    using dc(3)[of i k] that hD4 colsD4 by auto
  have d4date: "cell_at D4 i ''date'' = normalise_date lib (stacked_column df1 df2 ''date'') i"
    if "i < n" for i
  proof -
    have "i < length date" using that getitem_Inr[OF date] by (simp add: length_column hC0)
    then show ?thesis
      using that by (simp add: cD4 cD3 cD2 cD1 nth_pd_to_datetime date_col)
  qed
  show "cell_at df i ''date'' = normalise_date lib (stacked_column df1 df2 ''date'') i"
    if "i < n" for i
    using keep[OF that, of "''date''"] d4date[OF that] by (simp add: rewritten_def)
  show "astype_Int64 (to_numeric (str_to_num lib) (stacked_cell df1 df2 i ''store_nbr''))
             = Inr (cell_at df i ''store_nbr'')" if "i < n" for i
  proof -
    have "store0 ! i = stacked_cell df1 df2 i ''store_nbr''"
      using that by (simp add: s0 nth_column hD1 cD1 cC0)
    moreover have "astype_Int64 (to_numeric p (store0 ! i)) = Inr (store ! i)"
      using collect_Inr[OF store] that by (simp add: s0 length_column hD1)
    moreover have "cell_at df i ''store_nbr'' = store ! i"
      using keep[OF that, of "''store_nbr''"] that by (simp add: rewritten_def cD4 cD3 cD2)
    ultimately show ?thesis by (simp add: p_def)
  qed
  show "cell_at df i ''sales''
             = fillna (FloatC 0) (to_numeric (str_to_num lib) (stacked_cell df1 df2 i ''sales''))"
    if "i < n" for i
  proof -
    have "sales ! i = stacked_cell df1 df2 i ''sales''"
      using that by (simp add: sl nth_column hD2 cD2 cD1 cC0)
    moreover have "cell_at df i ''sales'' = fillna (FloatC 0) (to_numeric p (sales ! i))"
      using keep[OF that, of "''sales''"] that by (simp add: rewritten_def cD4 cD3)
    ultimately show ?thesis by (simp add: p_def)
  qed
  show "astype_int (fillna (IntC 0)
               (to_numeric (str_to_num lib) (stacked_cell df1 df2 i ''onpromotion'')))
             = Inr (cell_at df i ''onpromotion'')" if "i < n" for i
  proof -
    have "promo0 ! i = stacked_cell df1 df2 i ''onpromotion''"
      using that by (simp add: p0 nth_column hD3 cD3 cD2 cD1 cC0)
    moreover have "astype_int (fillna (IntC 0) (to_numeric p (promo0 ! i))) = Inr (promo ! i)"
      using collect_Inr[OF promo] that by (simp add: p0 length_column hD3)
    moreover have "cell_at df i ''onpromotion'' = promo ! i"
      using keep[OF that, of "''onpromotion''"] that by (simp add: rewritten_def cD4)
    ultimately show ?thesis by (simp add: p_def)
  qed
  show "cell_at df i k = stacked_cell df1 df2 i k"
    if "i < n" "k \<notin> rewritten" "k \<noteq> ''Unnamed: 0''"
       "k \<notin> calendar \<or> k \<in> set (columns df1) \<union> set (columns df2)" for i k
  proof -
    have "cell_at df i k = cell_at D4 i k" using keep[of i k] that by auto
    also have "\<dots> = stacked_cell df1 df2 i k"
      using that by (simp add: cD4 cD3 cD2 cD1 cC0 rewritten_def)
    finally show ?thesis .
  qed
  show "\<exists>t. cell_at df i ''date'' = TsC t"
    if "''week'' \<notin> set (columns df1) \<union> set (columns df2)" "i < n" for i
  proof -
    have "''week'' \<notin> set (columns D4)" using that(1) colsD4 by (auto simp: rewritten_def)
    from dc(4)[OF this, of i] that(2) hD4 obtain t where "cell_at D4 i ''date'' = TsC t" by auto
    then show ?thesis using keep[OF that(2), of "''date''"] by (simp add: rewritten_def)
  qed
qed

lemma row_key_tx_row:
  assumes "''date'' \<in> set (columns df)" "''store_nbr'' \<in> set (columns df)"
  shows "row_key (tx_columns df) key_cols (tx_row lib df x) = row_key (columns df) key_cols x"
proof -
  have "''date'' \<in> set (tx_columns df)" "''store_nbr'' \<in> set (tx_columns df)"
    using assms by (simp_all add: tx_columns_set)
  then show ?thesis
    by (simp add: row_key_def key_cols_def tx_row_def cell_of_map)
qed

lemma keep_first_subset: "set (keep_first K seen xs) \<subseteq> set xs"
  by (induction xs arbitrary: seen) auto

lemma cell_of_tx_row:
  "cell_of (tx_columns df) (snd (tx_row lib df x)) k =
     (if k \<in> set (tx_columns df)
      then (if k = ''transactions''
            then coerce_transactions lib (cell_of (columns df) (snd x) k)
            else cell_of (columns df) (snd x) k)
      else NA)"
  by (simp add: tx_row_def cell_of_map)

lemma to_numeric_kind: "to_numeric p c = NA \<or> is_number (to_numeric p c)"
  by (cases c) (auto split: option.splits numeral_value.splits)

lemma coerce_transactions_number:
  "is_number (coerce_transactions lib c)"
  "coerce_transactions lib c =
     (if to_numeric (str_to_num lib) c = NA then FloatC 0 else to_numeric (str_to_num lib) c)"
  "num_val (coerce_transactions lib c) = num_val (to_numeric (str_to_num lib) c)"
  using to_numeric_kind[of "str_to_num lib" c]
  by (cases "to_numeric (str_to_num lib) c"; simp add: coerce_transactions_def)+

lemma build_transactions_table_rows:
  assumes "build_transactions_table lib df = Inr tx" "i < height tx"
  shows "\<exists>j < height df. rows tx ! i = tx_row lib df (rows df ! j)"
proof -
  let ?kept = "keep_first (row_key (columns df) key_cols) [] (rows df)"
  from assms(1) have tx: "rows tx = map (tx_row lib df) ?kept"
    by (simp add: build_transactions_table_Inr)
  with assms(2) have i: "i < length ?kept" by (simp add: height_def)
  then have "?kept ! i \<in> set (rows df)"
    by (rule subsetD[OF keep_first_subset nth_mem])
  then obtain j where "j < length (rows df)" "rows df ! j = ?kept ! i"
    by (auto simp: in_set_conv_nth)
  then show ?thesis using i by (auto simp: tx height_def)
qed




lemma map_fst_filter_zip: "map fst (filter snd (zip xs (map f xs))) = filter f xs"
  by (induction xs) auto

lemma date_filter_Inr:
  "date_filter T d0 d1 = Inr v \<longleftrightarrow>
     ''date'' \<in> set (columns T) \<and>
     v = \<lparr>columns = columns T,
           rows = filter (\<lambda>lr. in_date_range d0 d1 (cell_of (columns T) (snd lr) ''date''))
                    (rows T)\<rparr>"
proof -
  have "map (in_date_range d0 d1) (column T ''date'')
          = map (\<lambda>lr. in_date_range d0 d1 (cell_of (columns T) (snd lr) ''date'')) (rows T)"
    by (simp add: column_def case_prod_beta)
  then show ?thesis
    by (auto simp: date_filter_def ebind_def getitem_def boolean_index_def map_fst_filter_zip)
qed


lemma load_data_frame_needs_dates:
  assumes "''week'' \<notin> set (columns df1) \<union> set (columns df2)"
    and "i < height df1 + height df2"
    and "to_datetime lib (stacked_column df1 df2 ''date'') i = None"
  shows "\<exists>e. load_data_frame lib df1 df2 = Inl e"
proof (cases "load_data_frame lib df1 df2")
  case (Inl e)
  then show ?thesis by simp
next
  case (Inr df)
  from load_data_frame_Inr(3)[OF Inr assms(2)] assms(3)
  have "cell_at df i ''date'' = NA" by (simp add: normalise_date_def)
  moreover from load_data_frame_Inr(8)[OF Inr assms(1,2)]
  obtain t where "cell_at df i ''date'' = TsC t" by blast
  ultimately show ?thesis by simp
qed















lemma build_transactions_table_st_cases:
  obtains (stop1) e where
      "drop_duplicates (select_columns (h ! df) (tx_columns (h ! df))) [''date'', ''store_nbr''] = Inl e"
      "build_transactions_table_st lib h df
         = (Inl e, h @ [select_columns (h ! df) (tx_columns (h ! df))])"
      "build_transactions_table lib (h ! df) = Inl e"
  | (stop2) d e where
      "getitem d ''transactions'' = Inl e"
      "build_transactions_table_st lib h df
         = (Inl e, h @ [select_columns (h ! df) (tx_columns (h ! df)), d])"
      "build_transactions_table lib (h ! df) = Inl e"
  | (built) t where
      "build_transactions_table_st lib h df
         = (Inr (Suc (length h)), h @ [select_columns (h ! df) (tx_columns (h ! df)), t])"
      "build_transactions_table lib (h ! df) = Inr t"
proof -
  let ?S = "select_columns (h ! df) (tx_columns (h ! df))"
  show thesis
  proof (cases "drop_duplicates ?S [''date'', ''store_nbr'']")
    case (Inl e)
    then show ?thesis
      by (intro stop1[of e])
         (simp_all add: build_transactions_table_st_def build_transactions_table_def alloc_def
            ebind_def)
  next
    case (Inr d)
    show ?thesis
    proof (cases "getitem d ''transactions''")
      case (Inl e)
      with Inr show ?thesis
        by (intro stop2[of d e])
           (simp_all add: build_transactions_table_st_def build_transactions_table_def alloc_def
              ebind_def nth_append)
    next
      case tx: (Inr tx)
      with Inr show ?thesis
        by (intro built[of "setitem d ''transactions'' (map (coerce_transactions lib) tx)"])
           (simp_all add: build_transactions_table_st_def build_transactions_table_def alloc_def
              ebind_def nth_append list_update_append)
    qed
  qed
qed

lemma build_transactions_table_st_frame:
  "length h \<le> length (snd (build_transactions_table_st lib h df)) \<and>
   (\<forall>a < length h. snd (build_transactions_table_st lib h df) ! a = h ! a)"
  by (cases rule: build_transactions_table_st_cases[of h df lib]) (simp_all add: nth_append)

lemma build_transactions_table_st_result:
  assumes "build_transactions_table_st lib h df = (Inr b, h')"
  shows "length h \<le> b \<and> b < length h' \<and> build_transactions_table lib (h ! df) = Inr (h' ! b)"
  using assms
  by (cases rule: build_transactions_table_st_cases[of h df lib]) (auto simp: nth_append)

lemma date_filter_st_frame:
  "length h \<le> length (snd (date_filter_st h df d0 d1)) \<and>
   (\<forall>a < length h. snd (date_filter_st h df d0 d1) ! a = h ! a)"
  by (cases "date_filter (h ! df) d0 d1")
     (simp_all add: date_filter_st_def alloc_def nth_append)

lemma date_filter_st_result:
  assumes "date_filter_st h df d0 d1 = (Inr c, h')"
  shows "length h \<le> c \<and> c < length h' \<and> date_filter (h ! df) d0 d1 = Inr (h' ! c)"
  using assms
  by (cases "date_filter (h ! df) d0 d1")
     (auto simp: date_filter_st_def alloc_def nth_append)

lemma run_op_frame:
  "length h \<le> length (run_op lib h x) \<and> (\<forall>a < length h. run_op lib h x ! a = h ! a)"
  by (cases x) (simp_all add: build_transactions_table_st_frame date_filter_st_frame)

lemma run_ops_frame:
  "length h \<le> length (run_ops lib h ops) \<and> (\<forall>a < length h. run_ops lib h ops ! a = h ! a)"
  unfolding run_ops_def
proof (induction ops arbitrary: h)
  case Nil
  show ?case by simp
next
  case (Cons x ops)
  have step: "length h \<le> length (run_op lib h x)" "\<forall>a < length h. run_op lib h x ! a = h ! a"
    using run_op_frame[of h lib x] by simp_all
  have rest: "length (run_op lib h x) \<le> length (foldl (run_op lib) (run_op lib h x) ops)"
    "\<forall>a < length (run_op lib h x). foldl (run_op lib) (run_op lib h x) ops ! a = run_op lib h x ! a"
    using Cons.IH[of "run_op lib h x"] by simp_all
  show ?case using step rest by (simp add: order_trans less_le_trans)
qed

subsection \<open>Claims\<close>

text \<open>
  C7. \<open>read_csv_from_zip\<close> stops with the missing-file error exactly when the path does
  not exist, with the no-tabular-entry error exactly when the archive has no entry whose
  name ends in ".csv" (compared in lower case), and with the empty-payload error exactly
  when the selected entry has size zero. Otherwise the selected entry is a ".csv" entry of
  the largest size and the result is what reading that entry gives. A call that stops returns
  no table. An existing path is taken to hold a well-formed archive.
\<close>

theorem read_csv_from_zip_outcomes:
  "(read_csv_from_zip lib fs p = Inl MissingFileError \<longleftrightarrow> fs p = None) \<and>
   (read_csv_from_zip lib fs p = Inl NoTabularEntryError \<longleftrightarrow>
      (\<exists>z. fs p = Some z \<and> (\<forall>i \<in> set z. \<not> endswith (lower (filename i)) ''.csv''))) \<and>
   (read_csv_from_zip lib fs p = Inl EmptyPayloadError \<longleftrightarrow>
      (\<exists>z best. fs p = Some z \<and> selected z = Some best \<and> file_size best = 0)) \<and>
   (\<forall>z best. fs p = Some z \<and> selected z = Some best \<and> file_size best \<noteq> 0 \<longrightarrow>
      best \<in> set (csv_infos z) \<and>
      (\<forall>i \<in> set (csv_infos z). file_size i \<le> file_size best) \<and>
      read_csv_from_zip lib fs p = parsed lib best) \<and>
   (\<forall>e. read_csv_from_zip lib fs p = Inl e \<longrightarrow> (\<nexists>t. read_csv_from_zip lib fs p = Inr t))"
proof (intro conjI)
  show "read_csv_from_zip lib fs p = Inl MissingFileError \<longleftrightarrow> fs p = None"
    using parsed_not_stop[of lib]
    by (auto simp: read_csv_from_zip_selected split: option.splits)
  show "read_csv_from_zip lib fs p = Inl NoTabularEntryError \<longleftrightarrow>
      (\<exists>z. fs p = Some z \<and> (\<forall>i \<in> set z. \<not> endswith (lower (filename i)) ''.csv''))"
    using parsed_not_stop[of lib]
    by (auto simp: read_csv_from_zip_selected selected_None[symmetric] split: option.splits)
  show "read_csv_from_zip lib fs p = Inl EmptyPayloadError \<longleftrightarrow>
      (\<exists>z best. fs p = Some z \<and> selected z = Some best \<and> file_size best = 0)"
    using parsed_not_stop[of lib]
    by (auto simp: read_csv_from_zip_selected split: option.splits)
  show "\<forall>z best. fs p = Some z \<and> selected z = Some best \<and> file_size best \<noteq> 0 \<longrightarrow>
      best \<in> set (csv_infos z) \<and>
      (\<forall>i \<in> set (csv_infos z). file_size i \<le> file_size best) \<and>
      read_csv_from_zip lib fs p = parsed lib best"
    using selected_largest by (auto simp: read_csv_from_zip_selected)
  show "\<forall>e. read_csv_from_zip lib fs p = Inl e \<longrightarrow> (\<nexists>t. read_csv_from_zip lib fs p = Inr t)"
    by simp
qed

theorem read_csv_from_zip_outcomes_witness:
  "example_fs ''parte_1.zip'' = Some archive_1 \<and>
   selected archive_1 = Some \<lparr>filename = ''DATA.CSV'', file_size = 300, payload = part_1\<rparr> \<and>
   \<lparr>filename = ''DATA.CSV'', file_size = 300, payload = part_1\<rparr> \<in> set (csv_infos archive_1) \<and>
   read_csv_from_zip example_lib example_fs ''parte_1.zip'' = Inr part_1 \<and>
   read_csv_from_zip example_lib example_fs ''missing.zip'' = Inl MissingFileError"
proof -
  let ?best = "\<lparr>filename = ''DATA.CSV'', file_size = 300, payload = part_1\<rparr>"
  have fs: "example_fs ''parte_1.zip'' = Some archive_1"
    by (simp add: example_fs_def)
  have sel: "selected archive_1 = Some ?best"
    by code_simp
  have size: "file_size ?best \<noteq> 0"
    by simp
  have rd: "parsed example_lib ?best = Inr part_1"
    by (simp add: parsed_def example_lib_def)
  have none: "example_fs ''missing.zip'' = None"
    by (simp add: example_fs_def)
  from read_csv_from_zip_outcomes[of example_lib example_fs "''parte_1.zip''"] fs sel size
  have "?best \<in> set (csv_infos archive_1) \<and>
        (\<forall>i \<in> set (csv_infos archive_1). file_size i \<le> file_size ?best) \<and>
        read_csv_from_zip example_lib example_fs ''parte_1.zip'' = parsed example_lib ?best"
    by blast
  moreover from read_csv_from_zip_outcomes[of example_lib example_fs "''missing.zip''"] none
  have "read_csv_from_zip example_lib example_fs ''missing.zip'' = Inl MissingFileError"
    by blast
  ultimately show ?thesis using fs sel rd by simp
qed

text \<open>
  C1. For every row of the table given to \<open>build_transactions_table\<close>, the result has
  exactly one row with that row's (date, store_nbr) pair: no pair is dropped and none is
  repeated. The row kept is made from the first input row that carries the pair: it has that
  row's label and its cells on the columns kept, the transactions cell coerced. Two missing
  markers count as the same key value, as the library's duplicate test has it.
\<close>

theorem build_transactions_table_one_row_per_pair:
  assumes "build_transactions_table lib df = Inr tx" and "lr \<in> set (rows df)"
  shows "\<exists>first. find (\<lambda>x. row_key (columns df) key_cols x = row_key (columns df) key_cols lr)
                     (rows df) = Some first \<and>
           filter (\<lambda>x. row_key (columns tx) key_cols x = row_key (columns df) key_cols lr)
                  (rows tx) = [tx_row lib df first]"
proof -
  let ?K = "row_key (columns df) key_cols"
  let ?k = "?K lr"
  from assms(1) have cols: "''date'' \<in> set (columns df)" "''store_nbr'' \<in> set (columns df)"
    and tx: "tx = \<lparr>columns = tx_columns df,
                    rows = map (tx_row lib df) (keep_first ?K [] (rows df))\<rparr>"
    by (simp_all add: build_transactions_table_Inr)
  from assms(2) obtain first where first: "find (\<lambda>x. ?K x = ?k) (rows df) = Some first"
  proof (cases "find (\<lambda>x. ?K x = ?k) (rows df)")
    case None
    then have "\<forall>x \<in> set (rows df). ?K x \<noteq> ?k" by (auto simp: find_None_iff)
    with assms(2) show ?thesis by blast
  next
    case (Some a)
    then show ?thesis by (rule that)
  qed
  have "filter (\<lambda>x. row_key (columns tx) key_cols x = ?k) (rows tx)
          = map (tx_row lib df) (filter (\<lambda>x. ?K x = ?k) (keep_first ?K [] (rows df)))"
    by (simp add: tx filter_map comp_def row_key_tx_row[OF cols])
  also have "\<dots> = [tx_row lib df first]"
    by (simp add: keep_first_filter_key first)
  finally show ?thesis using first by blast
qed

theorem build_transactions_table_one_row_per_pair_witness:
  "build_transactions_table example_lib unified = Inr unified_tx \<and>
   (1, [TsC 1672531200000000000, IntC 1, StrC ''BREAD'', FloatC 0, IntC 0, IntC 50,
        IntC 2023, IntC 1, IntC 52]) \<in> set (rows unified) \<and>
   (\<exists>first.
      find (\<lambda>x. row_key (columns unified) key_cols x =
                  row_key (columns unified) key_cols
                    (1, [TsC 1672531200000000000, IntC 1, StrC ''BREAD'', FloatC 0, IntC 0,
                         IntC 50, IntC 2023, IntC 1, IntC 52]))
           (rows unified) = Some first \<and>
      filter (\<lambda>x. row_key (columns unified_tx) key_cols x =
                    row_key (columns unified) key_cols
                      (1, [TsC 1672531200000000000, IntC 1, StrC ''BREAD'', FloatC 0, IntC 0,
                           IntC 50, IntC 2023, IntC 1, IntC 52]))
             (rows unified_tx) = [tx_row example_lib unified first])"
proof -
  have b: "build_transactions_table example_lib unified = Inr unified_tx"
    by code_simp
  have m: "(1, [TsC 1672531200000000000, IntC 1, StrC ''BREAD'', FloatC 0, IntC 0, IntC 50,
        IntC 2023, IntC 1, IntC 52]) \<in> set (rows unified)"
    by (simp add: unified_def)
  from build_transactions_table_one_row_per_pair[OF b m] b m show ?thesis
    by blast
qed

text \<open>
  C4 (as amended). After \<open>build_transactions_table\<close> every cell of the transactions column
  is a number. It is the transactions value of an input row with the same label, read
  through the coercion: exactly 0.0 where that value is missing or not a number, and the
  value itself otherwise. Nothing clips a value: the result is negative exactly when the
  source number is.
\<close>

theorem transactions_coerced_not_clipped:
  assumes "build_transactions_table lib df = Inr tx" and "i < height tx"
  shows "is_number (cell_at tx i ''transactions'') \<and>
         (\<exists>j < height df.
            fst (rows tx ! i) = fst (rows df ! j) \<and>
            cell_at tx i ''transactions'' =
              (if to_numeric (str_to_num lib) (cell_at df j ''transactions'') = NA then FloatC 0
               else to_numeric (str_to_num lib) (cell_at df j ''transactions'')) \<and>
            num_val (cell_at tx i ''transactions'') =
              num_val (to_numeric (str_to_num lib) (cell_at df j ''transactions'')))"
proof -
  from assms(1) have cols: "columns tx = tx_columns df" "''transactions'' \<in> set (columns df)"
    by (simp_all add: build_transactions_table_Inr)
  then have mem: "''transactions'' \<in> set (tx_columns df)" by (simp add: tx_columns_set)
  from build_transactions_table_rows[OF assms] obtain j where
    j: "j < height df" "rows tx ! i = tx_row lib df (rows df ! j)" by blast
  have c: "cell_at tx i ''transactions'' = coerce_transactions lib (cell_at df j ''transactions'')"
    using mem by (simp add: cell_at_def cols(1) j(2) cell_of_tx_row)
  have l: "fst (rows tx ! i) = fst (rows df ! j)" by (simp add: j(2) tx_row_def)
  note n = coerce_transactions_number[of lib "cell_at df j ''transactions''", folded c]
  have "j < height df \<and>
            fst (rows tx ! i) = fst (rows df ! j) \<and>
            cell_at tx i ''transactions'' =
              (if to_numeric (str_to_num lib) (cell_at df j ''transactions'') = NA then FloatC 0
               else to_numeric (str_to_num lib) (cell_at df j ''transactions'')) \<and>
            num_val (cell_at tx i ''transactions'') =
              num_val (to_numeric (str_to_num lib) (cell_at df j ''transactions''))"
    using j(1) l n(2) n(3) by simp
  then show ?thesis using n(1) by blast
qed

theorem transactions_coerced_not_clipped_witness:
  "build_transactions_table example_lib unified = Inr unified_tx \<and> 1 < height unified_tx \<and>
   is_number (cell_at unified_tx 1 ''transactions'') \<and>
   (\<exists>j < height unified.
      fst (rows unified_tx ! 1) = fst (rows unified ! j) \<and>
      cell_at unified_tx 1 ''transactions'' =
        (if to_numeric (str_to_num example_lib) (cell_at unified j ''transactions'') = NA
         then FloatC 0
         else to_numeric (str_to_num example_lib) (cell_at unified j ''transactions'')) \<and>
      num_val (cell_at unified_tx 1 ''transactions'') =
        num_val (to_numeric (str_to_num example_lib) (cell_at unified j ''transactions'')))"
proof -
  have b: "build_transactions_table example_lib unified = Inr unified_tx"
    by code_simp
  have h: "1 < height unified_tx"
    by (simp add: height_def unified_tx_def)
  note t = transactions_coerced_not_clipped[OF b h]
  show ?thesis
    by (rule conjI[OF b conjI[OF h t]])
qed

text \<open>
  The claim as first stated (no output row has a negative transactions value) fails on a
  table with a negative count.
\<close>

theorem transactions_negative_counterexample:
  "build_transactions_table example_lib refund_day = Inr refund_day \<and>
   cell_at refund_day 0 ''transactions'' = IntC (- 5) \<and>
   num_val (cell_at refund_day 0 ''transactions'') < 0"
proof -
  have "build_transactions_table example_lib refund_day = Inr refund_day"
    by code_simp
  moreover have "cell_at refund_day 0 ''transactions'' = IntC (- 5)"
    by (simp add: cell_at_def refund_day_def cell_of_def)
  ultimately show ?thesis by simp
qed

text \<open>
  C3. The claim asks that no row-level parse failure stops the load, also when the week
  column has to be derived from dates of which some are missing. The code stops there:
  with no week column in either source and one date that does not parse, the cast of the
  derived week to \<open>int\<close> (line 74) raises. Here the third row's date is not a date.
\<close>

theorem load_data_stops_on_unparsed_date:
  "''week'' \<notin> set (columns part_1) \<union> set (columns part_unparsed) \<and>
   to_datetime example_lib (stacked_column part_1 part_unparsed ''date'') 2 = None \<and>
   load_data_frame example_lib part_1 part_unparsed = Inl ValueError"
proof -
  have "''week'' \<notin> set (columns part_1) \<union> set (columns part_unparsed)"
    by (simp add: part_1_def part_unparsed_def)
  moreover have "to_datetime example_lib (stacked_column part_1 part_unparsed ''date'') 2 = None"
    by code_simp
  moreover have "load_data_frame example_lib part_1 part_unparsed = Inl ValueError"
    by code_simp
  ultimately show ?thesis by simp
qed








text \<open>
  C8. The claim asks that a date-range view keeps every row whose timestamp lies anywhere
  within the end day. The code sets the upper bound to the end day's midnight plus one day
  minus one second, and timestamps have nanosecond resolution: a row stamped in the last
  second of the end day, after 23:59:59.0, is left out. Here the second row is stamped
  2023-01-01 23:59:59.5 and the range is the single day 2023-01-01 (day 19358).
\<close>

theorem date_filter_drops_last_second:
  "start_date 19358 \<le> 1672617599500000000 \<and>
   1672617599500000000 < start_date (19358 + 1) \<and>
   cell_at late_sale 1 ''date'' = TsC 1672617599500000000 \<and>
   date_filter late_sale 19358 19358 =
     Inr \<lparr>columns = [''date'', ''store_nbr'', ''sales''],
          rows = [(0, [TsC 1672531200000000000, IntC 1, FloatC 10])]\<rparr>"
proof -
  have "start_date 19358 \<le> 1672617599500000000"
    by (simp add: start_date_def ns_per_day_def ns_per_second_def)
  moreover have "1672617599500000000 < start_date (19358 + 1)"
    by (simp add: start_date_def ns_per_day_def ns_per_second_def)
  moreover have "cell_at late_sale 1 ''date'' = TsC 1672617599500000000"
    by (simp add: cell_at_def cell_of_def late_sale_def)
  moreover have "date_filter late_sale 19358 19358 =
     Inr \<lparr>columns = [''date'', ''store_nbr'', ''sales''],
          rows = [(0, [TsC 1672531200000000000, IntC 1, FloatC 10])]\<rparr>"
    by (simp add: date_filter_Inr late_sale_def cell_of_def in_date_range_def start_date_def
        end_date_def ns_per_day_def ns_per_second_def)
  ultimately show ?thesis by simp
qed




text \<open>
  C9. A table that exists in the store is never written again: \<open>build_transactions_table\<close>
  leaves every existing table as it was and returns a reference to a new one, holding the
  de-duplicated table; a date filter leaves every existing table as it was and returns a
  reference to a new copy holding the filtered rows; and after any sequence of the two
  operations, on whatever tables, every table that existed before holds what it held.
\<close>

theorem base_tables_never_mutated:
  assumes "a < length h"
  shows "(\<forall>df res h'. build_transactions_table_st lib h df = (res, h') \<longrightarrow>
            h' ! a = h ! a \<and>
            (\<forall>b. res = Inr b \<longrightarrow>
               length h \<le> b \<and> b < length h' \<and>
               build_transactions_table lib (h ! df) = Inr (h' ! b))) \<and>
         (\<forall>df d0 d1 res h'. date_filter_st h df d0 d1 = (res, h') \<longrightarrow>
            h' ! a = h ! a \<and>
            (\<forall>c. res = Inr c \<longrightarrow>
               length h \<le> c \<and> c < length h' \<and>
               date_filter (h ! df) d0 d1 = Inr (h' ! c))) \<and>
         (\<forall>ops. run_ops lib h ops ! a = h ! a)"
proof (intro conjI allI impI)
  fix df res h' assume st: "build_transactions_table_st lib h df = (res, h')"
  show "h' ! a = h ! a"
    using build_transactions_table_st_frame[of h lib df] assms by (simp add: st)
  fix b assume "res = Inr b"
  with st have r: "build_transactions_table_st lib h df = (Inr b, h')" by simp
  note build_transactions_table_st_result[OF r]
  then show "length h \<le> b" "b < length h'" "build_transactions_table lib (h ! df) = Inr (h' ! b)"
    by simp_all
next
  fix df d0 d1 res h' assume st: "date_filter_st h df d0 d1 = (res, h')"
  show "h' ! a = h ! a"
    using date_filter_st_frame[of h df d0 d1] assms by (simp add: st)
  fix c assume "res = Inr c"
  with st have r: "date_filter_st h df d0 d1 = (Inr c, h')" by simp
  note date_filter_st_result[OF r]
  then show "length h \<le> c" "c < length h'" "date_filter (h ! df) d0 d1 = Inr (h' ! c)"
    by simp_all
next
  fix ops show "run_ops lib h ops ! a = h ! a"
    using run_ops_frame[of h lib ops] assms by simp
qed

theorem base_tables_never_mutated_witness:
  "(0::nat) < length [unified] \<and>
   build_transactions_table_st example_lib [unified] 0
     = (Inr 2, [unified, select_columns unified (tx_columns unified), unified_tx]) \<and>
   [unified, select_columns unified (tx_columns unified), unified_tx] ! 0 = [unified] ! 0 \<and>
   run_ops example_lib [unified] [Dedup 0, DateFilter 0 19358 19358, DateFilter 2 19358 19358] ! 0
     = [unified] ! 0"
proof -
  have a: "(0::nat) < length [unified]"
    by simp
  have st: "build_transactions_table_st example_lib [unified] 0
     = (Inr 2, [unified, select_columns unified (tx_columns unified), unified_tx])"
    by code_simp
  note t = base_tables_never_mutated[OF a, of example_lib]
  from t st have "[unified, select_columns unified (tx_columns unified), unified_tx] ! 0
      = [unified] ! 0"
    by blast
  moreover from t have "run_ops example_lib [unified]
      [Dedup 0, DateFilter 0 19358 19358, DateFilter 2 19358 19358] ! 0 = [unified] ! 0"
    by blast
  ultimately show ?thesis using a st by simp
qed

end
